theory Spec2Isabelle
  imports Main "HOL-Library.Word"
begin

section \<open>The person guide server (server/server.go)\<close>

subsection \<open>Messages of personguide/person_guide.proto\<close>

text \<open>
  The proto3 enum \<open>PhoneType\<close> (MOBILE = 0, HOME = 1, WORK = 2) and the messages
  \<open>PhoneNumber\<close>, \<open>Person\<close>, \<open>AddressBook\<close> and \<open>Adress\<close>. The field \<open>id\<close> is an
  \<open>int32\<close>; \<open>last_updated\<close> is a message field, hence optional (a nil pointer in Go).
  The \<open>name\<close> field of \<open>Adress\<close> is called \<open>AdressName\<close> here, because \<open>Person\<close>
  already has a field \<open>Name\<close>.
\<close>

datatype PhoneType = MOBILE | HOME | WORK

record PhoneNumber =
  Number :: string
  Type :: PhoneType

record Timestamp =
  Seconds :: int
  Nanos :: int

record Person =
  Name :: string
  Id :: "32 word"
  Email :: string
  Phones :: "PhoneNumber list"
  LastUpdated :: "Timestamp option"

record AddressBook =
  People :: "Person list"

record Adress =
  AdressName :: string

subsection \<open>Errors, outcomes and the server state\<close>

text \<open>
  Go errors as values: the sentinel \<open>io.EOF\<close>, an error made by \<open>errors.New\<close>, and any
  failure reported by the transport. A handler either returns, panics (an index out of
  range, a nil dereference), or never returns (it waits in \<open>Recv\<close> or in \<open>Lock\<close>).
\<close>

datatype error = EOF | ErrorNew string | TransportError string

datatype 'a outcome = Returned 'a | Panicked string | Blocked

text \<open>
  \<open>PersonGuideServer\<close>: the slice \<open>savedPersons\<close>, the mutex \<open>mu\<close> (\<open>True\<close> when
  locked) and the map \<open>addressbook\<close>. Records are never changed once they are in a
  slice and every \<open>append\<close> in the program is assigned back to the slice it extends,
  so slices of pointers are modelled as lists of values.
\<close>

record PersonGuideServer =
  savedPersons :: "Person list"
  mu :: bool
  addressbook :: "string \<rightharpoonup> AddressBook list"

subsection \<open>Example data and \<open>newServer\<close>\<close>

definition phones :: "PhoneNumber list" where
  "phones =
    [\<lparr>Number = ''1234'', Type = HOME\<rparr>,
     \<lparr>Number = ''4321'', Type = WORK\<rparr>,
     \<lparr>Number = ''4312'', Type = MOBILE\<rparr>]"

definition mkPerson :: "string \<Rightarrow> 32 word \<Rightarrow> string \<Rightarrow> Person" where
  "mkPerson n i e = \<lparr>Name = n, Id = i, Email = e, Phones = phones, LastUpdated = None\<rparr>"

definition exampleData :: "Person list" where
  "exampleData =
    [mkPerson ''Juan'' 1 ''juan@gmail.com'',
     mkPerson ''Gabriel'' 2 ''gabriel@gmail.com'',
     mkPerson ''Albert'' 3 ''albert@gmail.com'',
     mkPerson ''Mark'' 4 ''mark@gmail.com'',
     mkPerson ''Brian'' 5 ''brian@gmail.com'',
     mkPerson ''Kevin'' 6 ''kevin@gmail.com'',
     mkPerson ''Ryan'' 7 ''ryan@gmail.com'',
     mkPerson ''May'' 8 ''may@gmail.com'',
     mkPerson ''Rosario'' 9 ''rosario@gmail.com'',
     mkPerson ''Argentina'' 10 ''argentina@gmail.com'']"

definition exampleAdressBook :: "AddressBook list" where
  "exampleAdressBook = [\<lparr>People = exampleData\<rparr>]"

text \<open>\<open>loadFeatures\<close> ignores the file path apart from printing it.\<close>

definition loadFeatures :: "PersonGuideServer \<Rightarrow> PersonGuideServer" where
  "loadFeatures s =
     s\<lparr>savedPersons := exampleData,
       addressbook := (addressbook s)(''book'' \<mapsto> exampleAdressBook)\<rparr>"

definition newServer :: PersonGuideServer where
  "newServer = loadFeatures \<lparr>savedPersons = [], mu = False, addressbook = Map.empty\<rparr>"

subsection \<open>\<open>GetPhone\<close>\<close>

text \<open>
  The loop over \<open>s.savedPersons\<close>: the first record with the requested id decides.
  \<open>p.GetPhones()[0]\<close> panics on an empty slice. After the loop the handler returns the
  zero \<open>PhoneNumber\<close> together with the error.
\<close>

definition zeroPhoneNumber :: PhoneNumber where
  "zeroPhoneNumber = \<lparr>Number = [], Type = MOBILE\<rparr>"

fun GetPhone_range :: "Person list \<Rightarrow> Person \<Rightarrow> (PhoneNumber \<times> error option) outcome" where
  "GetPhone_range [] person =
     Returned (zeroPhoneNumber, Some (ErrorNew ''Not found person''))"
| "GetPhone_range (p # ps) person =
     (if Id p = Id person then
        (case Phones p of
           [] \<Rightarrow> Panicked ''index out of range [0] with length 0''
         | phone # _ \<Rightarrow> Returned (phone, None))
      else GetPhone_range ps person)"

definition GetPhone :: "PersonGuideServer \<Rightarrow> Person \<Rightarrow> (PhoneNumber \<times> error option) outcome" where
  "GetPhone s person = GetPhone_range (savedPersons s) person"

subsection \<open>\<open>ListPersons\<close>\<close>

text \<open>
  The server side of a stream is given by what its calls return. \<open>send_res k\<close> is the
  result of the \<open>k\<close>-th call of \<open>stream.Send\<close> in the session (counted from 0): \<open>None\<close>
  for nil, or the error. A run of \<open>ListPersons\<close> yields the argument of its one
  \<open>fmt.Println\<close>, the messages whose \<open>Send\<close> returned nil, in order, and the
  handler's return value.
\<close>

record ListPersonsRun =
  lp_printed :: "Adress list"
  lp_sent :: "Person list"
  lp_result :: "error option"

fun ListPersons_range :: "(nat \<Rightarrow> error option) \<Rightarrow> nat \<Rightarrow> Person list \<Rightarrow> Person list \<times> error option" where
  "ListPersons_range send_res k [] = ([], None)"
| "ListPersons_range send_res k (person # rest) =
     (case send_res k of
        Some err \<Rightarrow> ([], Some err)
      | None \<Rightarrow>
          (case ListPersons_range send_res (Suc k) rest of
             (sent, r) \<Rightarrow> (person # sent, r)))"

definition ListPersons :: "PersonGuideServer \<Rightarrow> Adress \<Rightarrow> (nat \<Rightarrow> error option) \<Rightarrow> ListPersonsRun" where
  "ListPersons s adress send_res =
     (case ListPersons_range send_res 0 (savedPersons s) of
        (sent, r) \<Rightarrow> \<lparr>lp_printed = [adress], lp_sent = sent, lp_result = r\<rparr>)"

subsection \<open>\<open>RecordPersons\<close>\<close>

text \<open>
  The inbound side of a stream is the list of the results of the successive calls of
  \<open>stream.Recv\<close>, each a pair of a \<open>*pb.Person\<close> (\<open>None\<close> for nil) and an error (\<open>None\<close>
  for nil), as Go returns them. When the list is used up the handler waits in \<open>Recv\<close>:
  the run is \<open>Blocked\<close>. \<open>now k\<close> is what \<open>timestamppb.New(time.Now())\<close> gives at its
  \<open>k\<close>-th call and \<open>close_res\<close> is the result of \<open>stream.SendAndClose\<close>.

  The record \<open>p\<close> built at end of input:
\<close>

type_synonym recv_result = "Person option \<times> error option"

definition anotherPerson :: Person where
  "anotherPerson =
     \<lparr>Name = ''Another part in the world'', Id = 11,
      Email = ''anotherpartintheworld@gmail.com'', Phones = phones, LastUpdated = None\<rparr>"

record RecordPersonsRun =
  rec_server :: PersonGuideServer
  rec_response :: "AddressBook option"
  rec_result :: "error option outcome"

text \<open>
  One pass of the loop body: the guarded append (line 72), the end-of-input branch with
  \<open>s.addressbook["book"][0]\<close> (a missing key gives the nil slice, whose index 0 is out
  of range), the error branch, and the next iteration.
\<close>

fun RecordPersons_loop ::
  "(nat \<Rightarrow> Timestamp) \<Rightarrow> error option \<Rightarrow> nat \<Rightarrow> PersonGuideServer \<Rightarrow> recv_result list \<Rightarrow> RecordPersonsRun" where
  "RecordPersons_loop now close_res k s [] =
     \<lparr>rec_server = s, rec_response = None, rec_result = Blocked\<rparr>"
| "RecordPersons_loop now close_res k s ((person, err) # rest) =
     (let s1 = (case person of
                  Some lastPerson \<Rightarrow>
                    if err \<noteq> None
                    then s\<lparr>savedPersons :=
                             savedPersons s @ [lastPerson\<lparr>LastUpdated := Some (now k)\<rparr>]\<rparr>
                    else s
                | None \<Rightarrow> s);
          k1 = (if err \<noteq> None \<and> person \<noteq> None then Suc k else k)
      in
      if err = Some EOF then
        (case addressbook s1 ''book'' of
           None \<Rightarrow>
             \<lparr>rec_server = s1, rec_response = None,
              rec_result = Panicked ''index out of range [0] with length 0''\<rparr>
         | Some [] \<Rightarrow>
             \<lparr>rec_server = s1, rec_response = None,
              rec_result = Panicked ''index out of range [0] with length 0''\<rparr>
         | Some (book # books) \<Rightarrow>
             (let book' = book\<lparr>People := People book @ [anotherPerson]\<rparr>
              in \<lparr>rec_server = s1\<lparr>addressbook := (addressbook s1)(''book'' \<mapsto> book' # books)\<rparr>,
                  rec_response = Some book',
                  rec_result = Returned close_res\<rparr>))
      else if err \<noteq> None then
        \<lparr>rec_server = s1, rec_response = None, rec_result = Returned err\<rparr>
      else RecordPersons_loop now close_res k1 s1 rest)"

definition RecordPersons ::
  "(nat \<Rightarrow> Timestamp) \<Rightarrow> error option \<Rightarrow> PersonGuideServer \<Rightarrow> recv_result list \<Rightarrow> RecordPersonsRun" where
  "RecordPersons now close_res s inbound = RecordPersons_loop now close_res 0 s inbound"

subsection \<open>\<open>RoutePhones\<close>\<close>

text \<open>
  A run of \<open>RoutePhones\<close> is observed as the sequence of the calls it makes: each
  \<open>Recv\<close> with its result, \<open>Lock\<close>, the copy of the phone list into \<open>rn\<close>, \<open>Unlock\<close>,
  and each \<open>Send\<close> with its argument and result.
\<close>

datatype event =
    EvRecv recv_result
  | EvLock
  | EvCopy "PhoneNumber list"
  | EvUnlock
  | EvSend PhoneNumber "error option"

record RoutePhonesRun =
  rp_events :: "event list"
  rp_server :: PersonGuideServer
  rp_result :: "error option outcome"

definition prepend :: "event list \<Rightarrow> RoutePhonesRun \<Rightarrow> RoutePhonesRun" where
  "prepend evs r = r\<lparr>rp_events := evs @ rp_events r\<rparr>"

text \<open>The inner loop \<open>for _, phone := range rn\<close>; \<open>k\<close> counts the calls of \<open>Send\<close>.\<close>

fun send_range :: "(nat \<Rightarrow> error option) \<Rightarrow> nat \<Rightarrow> PhoneNumber list \<Rightarrow> event list \<times> error option" where
  "send_range send_res k [] = ([], None)"
| "send_range send_res k (phone # rn) =
     (case send_res k of
        Some err \<Rightarrow> ([EvSend phone (Some err)], Some err)
      | None \<Rightarrow>
          (case send_range send_res (Suc k) rn of
             (evs, r) \<Rightarrow> (EvSend phone None # evs, r)))"

text \<open>
  The outer loop. \<open>Lock\<close> on a locked mutex does not return. \<open>person.Phones\<close> on a nil
  \<open>person\<close> is a nil dereference, between \<open>Lock\<close> and \<open>Unlock\<close>.
\<close>

fun RoutePhones_loop ::
  "(nat \<Rightarrow> error option) \<Rightarrow> nat \<Rightarrow> PersonGuideServer \<Rightarrow> recv_result list \<Rightarrow> RoutePhonesRun" where
  "RoutePhones_loop send_res k s [] =
     \<lparr>rp_events = [], rp_server = s, rp_result = Blocked\<rparr>"
| "RoutePhones_loop send_res k s ((person, err) # rest) =
     prepend [EvRecv (person, err)]
       (if err = Some EOF then
          \<lparr>rp_events = [], rp_server = s, rp_result = Returned None\<rparr>
        else if err \<noteq> None then
          \<lparr>rp_events = [], rp_server = s, rp_result = Returned err\<rparr>
        else if mu s then
          \<lparr>rp_events = [], rp_server = s, rp_result = Blocked\<rparr>
        else
          (case person of
             None \<Rightarrow>
               \<lparr>rp_events = [EvLock], rp_server = s\<lparr>mu := True\<rparr>,
                rp_result = Panicked ''invalid memory address or nil pointer dereference''\<rparr>
           | Some p \<Rightarrow>
               (let rn = Phones p in
                prepend [EvLock, EvCopy rn, EvUnlock]
                  (case send_range send_res k rn of
                     (evs, Some err) \<Rightarrow>
                       \<lparr>rp_events = evs, rp_server = s\<lparr>mu := False\<rparr>, rp_result = Returned (Some err)\<rparr>
                   | (evs, None) \<Rightarrow>
                       prepend evs
                         (RoutePhones_loop send_res (k + length rn) (s\<lparr>mu := False\<rparr>) rest)))))"

definition RoutePhones ::
  "PersonGuideServer \<Rightarrow> (nat \<Rightarrow> error option) \<Rightarrow> recv_result list \<Rightarrow> RoutePhonesRun" where
  "RoutePhones s send_res inbound = RoutePhones_loop send_res 0 s inbound"

text \<open>
  The guard discipline on a sequence of calls, replayed with the flag \<open>held\<close>: \<open>Recv\<close>
  and \<open>Send\<close> happen only while the guard is free, the copy only while it is held,
  \<open>Lock\<close> takes a free guard and \<open>Unlock\<close> releases a held one.
\<close>

fun guard_discipline :: "bool \<Rightarrow> event list \<Rightarrow> bool" where
  "guard_discipline held [] = True"
| "guard_discipline held (EvRecv r # es) = (\<not> held \<and> guard_discipline held es)"
| "guard_discipline held (EvSend phone r # es) = (\<not> held \<and> guard_discipline held es)"
| "guard_discipline held (EvLock # es) = (\<not> held \<and> guard_discipline True es)"
| "guard_discipline held (EvCopy rn # es) = (held \<and> guard_discipline held es)"
| "guard_discipline held (EvUnlock # es) = (held \<and> guard_discipline False es)"

text \<open>The messages a client receives: the arguments of the calls of \<open>Send\<close> that returned nil.\<close>

fun sent_phones :: "event list \<Rightarrow> PhoneNumber list" where
  "sent_phones [] = []"
| "sent_phones (EvSend phone None # es) = phone # sent_phones es"
| "sent_phones (_ # es) = sent_phones es"

subsection \<open>Environments and inputs used in the examples\<close>

text \<open>
  A stream on which every \<open>Send\<close> succeeds, a clock, and the contract of the generated
  \<open>Recv\<close>: it returns either a message and a nil error, or nil and an error.
\<close>

definition send_ok :: "nat \<Rightarrow> error option" where
  "send_ok = (\<lambda>k. None)"

definition clock :: "nat \<Rightarrow> Timestamp" where
  "clock k = \<lparr>Seconds = 1700000000 + int k, Nanos = 0\<rparr>"

fun recv_contract :: "recv_result \<Rightarrow> bool" where
  "recv_contract (Some p, None) = True"
| "recv_contract (None, Some e) = True"
| "recv_contract (Some p, Some e) = False"
| "recv_contract (None, None) = False"

text \<open>
  The server after one session of \<open>RecordPersons\<close> that read end of input at once, and
  the calls \<open>RoutePhones\<close> makes for one inbound record when its sends succeed.
\<close>

definition served_once :: PersonGuideServer where
  "served_once = rec_server (RecordPersons clock None newServer [(None, Some EOF)])"

definition record_events :: "Person \<Rightarrow> event list" where
  "record_events p =
     [EvRecv (Some p, None), EvLock, EvCopy (Phones p), EvUnlock] @
     map (\<lambda>phone. EvSend phone None) (Phones p)"

section \<open>Properties of \<open>GetPhone\<close>\<close>

lemma GetPhone_range_no_match:
  "Id person \<notin> Id ` set ps \<Longrightarrow>
   GetPhone_range ps person = Returned (zeroPhoneNumber, Some (ErrorNew ''Not found person''))"
  by (induction ps) auto

lemma GetPhone_range_first_match:
  "List.find (\<lambda>p. Id p = Id person) ps = Some p \<Longrightarrow> Phones p = phone # others \<Longrightarrow>
   GetPhone_range ps person = Returned (phone, None)"
  by (induction ps) (auto split: if_splits)

lemma find_append_left:
  "List.find P xs = Some x \<Longrightarrow> List.find P (xs @ ys) = Some x"
  by (induction xs) (auto split: if_splits)

lemma find_seed:
  "Id person \<in> Id ` set exampleData \<Longrightarrow>
   \<exists>p. List.find (\<lambda>p. Id p = Id person) exampleData = Some p \<and> Phones p = phones"
  by (auto simp: exampleData_def mkPerson_def)

text \<open>
  Claim C7. For every id of the seed set \<open>exampleData\<close>, and whatever has been appended
  to the registry after the seed, \<open>GetPhone\<close> returns, with a nil error, the first phone
  of the first record of the registry that has this id. The result is a function of
  the registry and the request.
\<close>

theorem GetPhone_seed_first_phone:
  assumes "Id person \<in> Id ` set exampleData"
  shows "\<exists>p phone others.
           List.find (\<lambda>p. Id p = Id person) (exampleData @ extra) = Some p \<and>
           Phones p = phone # others \<and>
           GetPhone (s\<lparr>savedPersons := exampleData @ extra\<rparr>) person = Returned (phone, None)"
proof -
  from find_seed [OF assms] obtain p where
    p: "List.find (\<lambda>p. Id p = Id person) exampleData = Some p" "Phones p = phones" by blast
  have f: "List.find (\<lambda>p. Id p = Id person) (exampleData @ extra) = Some p"
    using p(1) by (rule find_append_left)
  have ph: "Phones p = \<lparr>Number = ''1234'', Type = HOME\<rparr> # tl phones"
    using p(2) by (simp add: phones_def)
  show ?thesis
    using f ph GetPhone_range_first_match [OF f ph] by (auto simp: GetPhone_def)
qed

theorem GetPhone_seed_first_phone_witness:
  "Id (mkPerson [] 3 []) \<in> Id ` set exampleData \<and>
   GetPhone newServer (mkPerson [] 3 []) = Returned (\<lparr>Number = ''1234'', Type = HOME\<rparr>, None)"
proof -
  have h: "Id (mkPerson [] 3 []) \<in> Id ` set exampleData"
    by (simp add: exampleData_def mkPerson_def)
  have s: "newServer\<lparr>savedPersons := exampleData @ []\<rparr> = newServer"
    by (simp add: newServer_def loadFeatures_def)
  from GetPhone_seed_first_phone [OF h, of "[]" newServer] obtain p phone others where
    "List.find (\<lambda>p. Id p = Id (mkPerson [] 3 [])) (exampleData @ []) = Some p"
    "Phones p = phone # others"
    "GetPhone (newServer\<lparr>savedPersons := exampleData @ []\<rparr>) (mkPerson [] 3 []) = Returned (phone, None)"
    by blast
  then show ?thesis using h s
    by (auto simp: exampleData_def mkPerson_def phones_def)
qed

text \<open>
  Claim C2. The claim asks for the \<open>Not found person\<close> error when the first matching
  record has no phone. The handler indexes the empty phone list instead: on a registry
  holding the seed and one record with id 12 and no phones, the request for id 12
  panics with an index out of range.
\<close>

theorem GetPhone_no_phone_panics:
  "GetPhone (newServer\<lparr>savedPersons := exampleData @ [(mkPerson ''Nobody'' 12 [])\<lparr>Phones := []\<rparr>]\<rparr>)
     (mkPerson [] 12 []) = Panicked ''index out of range [0] with length 0''"
  by (simp add: GetPhone_def exampleData_def mkPerson_def)

section \<open>Properties of \<open>ListPersons\<close>\<close>

lemma ListPersons_range_all_sent:
  "\<forall>i < length ps. send_res (k + i) = None \<Longrightarrow> ListPersons_range send_res k ps = (ps, None)"
proof (induction ps arbitrary: k)
  case Nil
  show ?case by simp
next
  case (Cons p ps)
  have here: "send_res k = None" using Cons.prems by force
  have "\<forall>i < length ps. send_res (Suc k + i) = None"
  proof (intro allI impI)
    fix i assume "i < length ps"
    then have "Suc i < length (p # ps)" by simp
    with Cons.prems have "send_res (k + Suc i) = None" by blast
    then show "send_res (Suc k + i) = None" by simp
  qed
  from Cons.IH [OF this] here show ?case by simp
qed

text \<open>
  Claim C4. The response stream and the return value of \<open>ListPersons\<close> are the same
  for any two filters (only the line printed on the server differs), and on a stream
  whose sends succeed the handler emits exactly the registry, in insertion order, and
  returns nil.
\<close>

theorem ListPersons_ignores_filter:
  "lp_sent (ListPersons s a1 send_res) = lp_sent (ListPersons s a2 send_res) \<and>
   lp_result (ListPersons s a1 send_res) = lp_result (ListPersons s a2 send_res) \<and>
   ((\<forall>k < length (savedPersons s). send_res k = None) \<longrightarrow>
      lp_sent (ListPersons s a1 send_res) = savedPersons s \<and>
      lp_result (ListPersons s a1 send_res) = None)"
proof -
  have "(\<forall>k < length (savedPersons s). send_res k = None) \<Longrightarrow>
        ListPersons_range send_res 0 (savedPersons s) = (savedPersons s, None)"
    using ListPersons_range_all_sent [of "savedPersons s" send_res 0] by simp
  then show ?thesis
    by (auto simp: ListPersons_def split: prod.splits)
qed

theorem ListPersons_ignores_filter_witness:
  "lp_sent (ListPersons newServer \<lparr>AdressName = ''Rosario''\<rparr> send_ok) = exampleData \<and>
   lp_sent (ListPersons newServer \<lparr>AdressName = ''Cordoba''\<rparr> send_ok) = exampleData \<and>
   lp_result (ListPersons newServer \<lparr>AdressName = ''Rosario''\<rparr> send_ok) = None"
proof -
  have h: "\<forall>k < length (savedPersons newServer). send_ok k = None"
    by (simp add: send_ok_def)
  have s: "savedPersons newServer = exampleData"
    by (simp add: newServer_def loadFeatures_def)
  show ?thesis
    using h s
      ListPersons_ignores_filter [of newServer "\<lparr>AdressName = ''Rosario''\<rparr>" send_ok
        "\<lparr>AdressName = ''Cordoba''\<rparr>"]
    by metis
qed

section \<open>Properties of \<open>RecordPersons\<close>\<close>

lemma RecordPersons_loop_read_failure:
  "\<forall>r \<in> set pre. snd r = None \<Longrightarrow> err \<noteq> EOF \<Longrightarrow>
   rec_result (RecordPersons_loop now close_res k s (pre @ (person, Some err) # rest)) = Returned (Some err) \<and>
   rec_response (RecordPersons_loop now close_res k s (pre @ (person, Some err) # rest)) = None \<and>
   addressbook (rec_server (RecordPersons_loop now close_res k s (pre @ (person, Some err) # rest))) = addressbook s"
proof (induction pre arbitrary: k s)
  case Nil
  then show ?case by (cases person) (simp_all add: Let_def)
next
  case (Cons r pre)
  obtain q where r: "r = (q, None)" using Cons.prems(1) by (cases r) auto
  have "\<forall>r \<in> set pre. snd r = None" using Cons.prems(1) by simp
  from Cons.IH [OF this Cons.prems(2)] show ?case
    by (cases q) (simp_all add: r Let_def)
qed

text \<open>
  Claim C6. When the reads before it returned a nil error and a read then fails with an
  error other than \<open>io.EOF\<close>, \<open>RecordPersons\<close> returns that error, \<open>SendAndClose\<close> is
  never called (there is no response), and the address book is left as it was.
\<close>

theorem RecordPersons_read_failure_aborts:
  assumes "\<forall>r \<in> set pre. snd r = None" and "err \<noteq> EOF"
  shows "rec_result (RecordPersons now close_res s (pre @ (person, Some err) # rest)) = Returned (Some err) \<and>
         rec_response (RecordPersons now close_res s (pre @ (person, Some err) # rest)) = None \<and>
         addressbook (rec_server (RecordPersons now close_res s (pre @ (person, Some err) # rest))) = addressbook s"
  unfolding RecordPersons_def using assms by (rule RecordPersons_loop_read_failure)

theorem RecordPersons_read_failure_aborts_witness:
  "rec_result (RecordPersons clock None newServer
     [(Some (mkPerson ''Zoe'' 42 ''zoe@gmail.com''), None),
      (None, Some (TransportError ''connection reset''))]) =
     Returned (Some (TransportError ''connection reset'')) \<and>
   rec_response (RecordPersons clock None newServer
     [(Some (mkPerson ''Zoe'' 42 ''zoe@gmail.com''), None),
      (None, Some (TransportError ''connection reset''))]) = None"
proof -
  have h1: "\<forall>r \<in> set [(Some (mkPerson ''Zoe'' 42 ''zoe@gmail.com''), None :: error option)]. snd r = None"
    by simp
  have h2: "TransportError ''connection reset'' \<noteq> EOF" by simp
  show ?thesis
    using h1 h2
      RecordPersons_read_failure_aborts [OF h1 h2, of clock None newServer None "[]"]
    by simp
qed

lemma RecordPersons_loop_contract:
  "\<forall>r \<in> set inbound. recv_contract r \<Longrightarrow>
   savedPersons (rec_server (RecordPersons_loop now close_res k s inbound)) = savedPersons s \<and>
   mu (rec_server (RecordPersons_loop now close_res k s inbound)) = mu s \<and>
   (case rec_response (RecordPersons_loop now close_res k s inbound) of
      None \<Rightarrow> addressbook (rec_server (RecordPersons_loop now close_res k s inbound)) = addressbook s
    | Some snapshot \<Rightarrow>
        \<exists>book books.
          addressbook s ''book'' = Some (book # books) \<and>
          snapshot = book\<lparr>People := People book @ [anotherPerson]\<rparr> \<and>
          addressbook (rec_server (RecordPersons_loop now close_res k s inbound)) =
            (addressbook s)(''book'' \<mapsto> snapshot # books))"
proof (induction inbound arbitrary: k s)
  case Nil
  show ?case by simp
next
  case (Cons r inbound)
  have rest: "\<forall>r \<in> set inbound. recv_contract r" using Cons.prems by simp
  have "recv_contract r" using Cons.prems by simp
  then consider (msg) p where "r = (Some p, None)" | (fail) e where "r = (None, Some e)"
    by (cases r rule: recv_contract.cases) auto
  then show ?case
  proof cases
    case msg
    have step: "RecordPersons_loop now close_res k s (r # inbound) =
                RecordPersons_loop now close_res k s inbound"
      by (simp add: msg Let_def)
    show ?thesis unfolding step by (rule Cons.IH [OF rest])
  next
    case fail
    then show ?thesis
      by (cases "e = EOF") (auto simp: Let_def split: option.splits list.splits)
  qed
qed

text \<open>
  Claim C10. When every read obeys the contract of \<open>Recv\<close> (a message with a nil error,
  or nil with an error), a session leaves \<open>savedPersons\<close> as it was. If the session
  answers, the snapshot is the first book as it was at the start with \<open>anotherPerson\<close>
  appended, whatever the inbound records were, and storing this book back is the only
  change of the address book; if it does not answer, the address book is unchanged.
\<close>

theorem RecordPersons_never_appends:
  assumes "\<forall>r \<in> set inbound. recv_contract r"
  shows "savedPersons (rec_server (RecordPersons now close_res s inbound)) = savedPersons s \<and>
   (case rec_response (RecordPersons now close_res s inbound) of
      None \<Rightarrow> addressbook (rec_server (RecordPersons now close_res s inbound)) = addressbook s
    | Some snapshot \<Rightarrow>
        \<exists>book books.
          addressbook s ''book'' = Some (book # books) \<and>
          snapshot = book\<lparr>People := People book @ [anotherPerson]\<rparr> \<and>
          addressbook (rec_server (RecordPersons now close_res s inbound)) =
            (addressbook s)(''book'' \<mapsto> snapshot # books))"
  unfolding RecordPersons_def
  using RecordPersons_loop_contract [OF assms, of now close_res 0 s] by simp

theorem RecordPersons_never_appends_witness:
  "savedPersons (rec_server (RecordPersons clock None newServer
     [(Some (mkPerson ''Zoe'' 42 ''zoe@gmail.com''), None),
      (Some (mkPerson ''Yan'' 43 ''yan@gmail.com''), None),
      (None, Some EOF)])) = exampleData \<and>
   rec_response (RecordPersons clock None newServer
     [(Some (mkPerson ''Zoe'' 42 ''zoe@gmail.com''), None),
      (Some (mkPerson ''Yan'' 43 ''yan@gmail.com''), None),
      (None, Some EOF)]) = Some \<lparr>People = exampleData @ [anotherPerson]\<rparr>"
proof -
  let ?inbound = "[(Some (mkPerson ''Zoe'' 42 ''zoe@gmail.com''), None),
      (Some (mkPerson ''Yan'' 43 ''yan@gmail.com''), None),
      (None, Some EOF)]"
  have h: "\<forall>r \<in> set ?inbound. recv_contract r" by simp
  have r: "rec_response (RecordPersons clock None newServer ?inbound) =
           Some \<lparr>People = exampleData @ [anotherPerson]\<rparr>"
    by (simp add: RecordPersons_def newServer_def loadFeatures_def exampleAdressBook_def Let_def)
  have s: "savedPersons newServer = exampleData"
    by (simp add: newServer_def loadFeatures_def)
  from RecordPersons_never_appends [OF h, of clock None newServer] s r
  show ?thesis by simp
qed

text \<open>
  Claim C1. The claim asks that each inbound record is stamped and appended to the
  registry and that the snapshot ends with the stamped input. The guard of the append
  is \<open>err != nil && person != nil\<close>, which is false for every record that arrives with
  a nil error: on a new server, a session fed one record and then end of input leaves
  \<open>savedPersons\<close> equal to the seed and answers with the seed plus \<open>anotherPerson\<close>.
\<close>

theorem RecordPersons_inbound_record_dropped:
  "savedPersons (rec_server (RecordPersons clock None newServer
     [(Some (mkPerson ''Zoe'' 42 ''zoe@gmail.com''), None), (None, Some EOF)])) = exampleData \<and>
   rec_response (RecordPersons clock None newServer
     [(Some (mkPerson ''Zoe'' 42 ''zoe@gmail.com''), None), (None, Some EOF)]) =
     Some \<lparr>People = exampleData @ [anotherPerson]\<rparr> \<and>
   rec_result (RecordPersons clock None newServer
     [(Some (mkPerson ''Zoe'' 42 ''zoe@gmail.com''), None), (None, Some EOF)]) = Returned None"
  by (simp add: RecordPersons_def newServer_def loadFeatures_def exampleAdressBook_def Let_def)

text \<open>
  Claim C5, as stated, fails on the second empty session of a server: the address book
  keeps the record injected by the first session, so the snapshot is not the registry
  at session start plus one record.
\<close>

theorem RecordPersons_second_empty_session_counterexample:
  "rec_response (RecordPersons clock None served_once [(None, Some EOF)]) \<noteq>
   Some \<lparr>People = savedPersons served_once @ [anotherPerson]\<rparr>"
  by (simp add: served_once_def RecordPersons_def newServer_def loadFeatures_def
      exampleAdressBook_def Let_def)

text \<open>
  Claim C5, amended. When the address book has a first book, a session fed no record
  before end of input hands to \<open>SendAndClose\<close> that book as it was at session start
  with \<open>anotherPerson\<close> appended, returns the result of \<open>SendAndClose\<close>, stores the
  extended book back and leaves \<open>savedPersons\<close> unchanged. On a new server this
  snapshot is the registry at session start plus \<open>anotherPerson\<close>.
\<close>

theorem RecordPersons_empty_session:
  assumes "addressbook s ''book'' = Some (book # books)"
  shows "rec_response (RecordPersons now close_res s [(None, Some EOF)]) =
           Some (book\<lparr>People := People book @ [anotherPerson]\<rparr>) \<and>
         rec_result (RecordPersons now close_res s [(None, Some EOF)]) = Returned close_res \<and>
         savedPersons (rec_server (RecordPersons now close_res s [(None, Some EOF)])) = savedPersons s \<and>
         addressbook (rec_server (RecordPersons now close_res s [(None, Some EOF)])) =
           (addressbook s)(''book'' \<mapsto> book\<lparr>People := People book @ [anotherPerson]\<rparr> # books) \<and>
         rec_response (RecordPersons now close_res newServer [(None, Some EOF)]) =
           Some \<lparr>People = savedPersons newServer @ [anotherPerson]\<rparr>"
  using assms
  by (simp add: RecordPersons_def Let_def newServer_def loadFeatures_def exampleAdressBook_def)

theorem RecordPersons_empty_session_witness:
  "addressbook served_once ''book'' = Some [\<lparr>People = exampleData @ [anotherPerson]\<rparr>] \<and>
   rec_response (RecordPersons clock None served_once [(None, Some EOF)]) =
     Some \<lparr>People = exampleData @ [anotherPerson, anotherPerson]\<rparr> \<and>
   savedPersons (rec_server (RecordPersons clock None served_once [(None, Some EOF)])) = exampleData"
proof -
  have h: "addressbook served_once ''book'' = Some (\<lparr>People = exampleData @ [anotherPerson]\<rparr> # [])"
    by (simp add: served_once_def RecordPersons_def newServer_def loadFeatures_def
        exampleAdressBook_def Let_def)
  have s: "savedPersons served_once = exampleData"
    by (simp add: served_once_def RecordPersons_def newServer_def loadFeatures_def
        exampleAdressBook_def Let_def)
  from RecordPersons_empty_session [OF h, of clock None] h s show ?thesis by simp
qed

section \<open>Properties of \<open>RoutePhones\<close>\<close>

lemma send_range_all_ok:
  "\<forall>i < length rn. send_res (k + i) = None \<Longrightarrow>
   send_range send_res k rn = (map (\<lambda>phone. EvSend phone None) rn, None)"
proof (induction rn arbitrary: k)
  case Nil
  show ?case by simp
next
  case (Cons phone rn)
  have here: "send_res k = None" using Cons.prems by force
  have "\<forall>i < length rn. send_res (Suc k + i) = None"
  proof (intro allI impI)
    fix i assume "i < length rn"
    then have "Suc i < length (phone # rn)" by simp
    with Cons.prems have "send_res (k + Suc i) = None" by blast
    then show "send_res (Suc k + i) = None" by simp
  qed
  from Cons.IH [OF this] here show ?case by simp
qed

lemma mu_free_update: "\<not> mu s \<Longrightarrow> s\<lparr>mu := False\<rparr> = s"
  by (cases s) simp

lemma prepend_append: "prepend xs (prepend ys r) = prepend (xs @ ys) r"
  by (simp add: prepend_def)

lemma prepend_Nil: "prepend [] r = r"
  by (simp add: prepend_def)

lemma rp_events_prepend: "rp_events (prepend xs r) = xs @ rp_events r"
  by (simp add: prepend_def)

lemma rp_result_prepend: "rp_result (prepend xs r) = rp_result r"
  by (simp add: prepend_def)

lemma rp_server_prepend: "rp_server (prepend xs r) = rp_server r"
  by (simp add: prepend_def)

lemma RoutePhones_loop_record:
  assumes "\<not> mu s" and "\<forall>i < length (Phones p). send_res (k + i) = None"
  shows "RoutePhones_loop send_res k s ((Some p, None) # rest) =
         prepend (record_events p) (RoutePhones_loop send_res (k + length (Phones p)) s rest)"
  using assms(1) send_range_all_ok [OF assms(2)]
  by (simp add: Let_def prepend_append record_events_def mu_free_update)

lemma RoutePhones_loop_records:
  assumes "\<not> mu s"
  shows "\<forall>i < length (concat (map Phones qs)). send_res (k + i) = None \<Longrightarrow>
         RoutePhones_loop send_res k s (map (\<lambda>q. (Some q, None)) qs @ rest) =
         prepend (concat (map record_events qs))
           (RoutePhones_loop send_res (k + length (concat (map Phones qs))) s rest)"
proof (induction qs arbitrary: k)
  case Nil
  show ?case by (simp add: prepend_Nil)
next
  case (Cons q qs)
  have a: "\<forall>i < length (Phones q). send_res (k + i) = None"
    using Cons.prems by simp
  have b: "\<forall>i < length (concat (map Phones qs)). send_res (k + length (Phones q) + i) = None"
  proof (intro allI impI)
    fix i assume "i < length (concat (map Phones qs))"
    then have "length (Phones q) + i < length (concat (map Phones (q # qs)))" by simp
    with Cons.prems have "send_res (k + (length (Phones q) + i)) = None" by blast
    then show "send_res (k + length (Phones q) + i) = None" by (simp add: add.assoc)
  qed
  show ?case
    using RoutePhones_loop_record [OF assms a, of "map (\<lambda>q. (Some q, None)) qs @ rest"]
      Cons.IH [OF b]
    by (simp add: prepend_append add.assoc)
qed

lemma RoutePhones_loop_first_event:
  "take 1 (rp_events (RoutePhones_loop send_res k s rest)) = map EvRecv (take 1 rest)"
proof (cases rest)
  case Nil
  then show ?thesis by simp
next
  case (Cons r rest')
  then show ?thesis by (cases r) (simp add: rp_events_prepend)
qed

text \<open>
  Claim C3. On a free guard and a stream whose sends succeed, once the records \<open>qs\<close>
  have been served and the record \<open>p\<close> is read, the handler's calls are: the \<open>Recv\<close>
  of \<open>p\<close>, \<open>Lock\<close>, the copy, \<open>Unlock\<close>, then one \<open>Send\<close> for each phone of \<open>p\<close>, in
  the order of the list; only then comes the rest of the run, whose first call (if the
  stream goes on) is the \<open>Recv\<close> of the next inbound entry. For a phone list
  \<open>[A, B, C]\<close> these are exactly three sends.
\<close>

theorem RoutePhones_emits_phone_list:
  assumes "\<not> mu s"
    and "\<forall>i < length (concat (map Phones (qs @ [p]))). send_res i = None"
  shows "rp_events (RoutePhones s send_res (map (\<lambda>q. (Some q, None)) qs @ (Some p, None) # rest)) =
           concat (map record_events qs) @ record_events p @
           rp_events (RoutePhones_loop send_res (length (concat (map Phones (qs @ [p])))) s rest) \<and>
         take 1 (rp_events (RoutePhones_loop send_res (length (concat (map Phones (qs @ [p])))) s rest)) =
           map EvRecv (take 1 rest)"
proof (rule conjI)
  have sends: "\<forall>i < length (concat (map Phones (qs @ [p]))). send_res (0 + i) = None"
    using assms(2) by simp
  have "map (\<lambda>q. (Some q, None :: error option)) (qs @ [p]) @ rest =
        map (\<lambda>q. (Some q, None)) qs @ (Some p, None) # rest"
    by simp
  with RoutePhones_loop_records [OF assms(1) sends, of rest]
  have "RoutePhones_loop send_res 0 s (map (\<lambda>q. (Some q, None)) qs @ (Some p, None) # rest) =
        prepend (concat (map record_events (qs @ [p])))
          (RoutePhones_loop send_res (0 + length (concat (map Phones (qs @ [p])))) s rest)"
    by metis
  then show "rp_events (RoutePhones s send_res (map (\<lambda>q. (Some q, None)) qs @ (Some p, None) # rest)) =
           concat (map record_events qs) @ record_events p @
           rp_events (RoutePhones_loop send_res (length (concat (map Phones (qs @ [p])))) s rest)"
    by (simp add: RoutePhones_def rp_events_prepend)
next
  show "take 1 (rp_events (RoutePhones_loop send_res (length (concat (map Phones (qs @ [p])))) s rest)) =
           map EvRecv (take 1 rest)"
    by (rule RoutePhones_loop_first_event)
qed

theorem RoutePhones_emits_phone_list_witness:
  "rp_events (RoutePhones newServer send_ok
     [(Some (mkPerson ''Zoe'' 42 ''zoe@gmail.com''), None),
      (Some (mkPerson ''Yan'' 43 ''yan@gmail.com''), None)]) =
   [EvRecv (Some (mkPerson ''Zoe'' 42 ''zoe@gmail.com''), None), EvLock, EvCopy phones, EvUnlock,
    EvSend \<lparr>Number = ''1234'', Type = HOME\<rparr> None,
    EvSend \<lparr>Number = ''4321'', Type = WORK\<rparr> None,
    EvSend \<lparr>Number = ''4312'', Type = MOBILE\<rparr> None,
    EvRecv (Some (mkPerson ''Yan'' 43 ''yan@gmail.com''), None), EvLock, EvCopy phones, EvUnlock,
    EvSend \<lparr>Number = ''1234'', Type = HOME\<rparr> None,
    EvSend \<lparr>Number = ''4321'', Type = WORK\<rparr> None,
    EvSend \<lparr>Number = ''4312'', Type = MOBILE\<rparr> None]"
proof -
  have h1: "\<not> mu newServer" by (simp add: newServer_def loadFeatures_def)
  have h2: "\<forall>i < length (concat (map Phones ([] @ [mkPerson ''Zoe'' 42 ''zoe@gmail.com'']))).
              send_ok i = None"
    by (simp add: send_ok_def)
  have ph: "Phones (mkPerson ''Zoe'' 42 ''zoe@gmail.com'') = phones"
           "Phones (mkPerson ''Yan'' 43 ''yan@gmail.com'') = phones"
    by (simp_all add: mkPerson_def)
  from RoutePhones_emits_phone_list [OF h1 h2,
      of "[(Some (mkPerson ''Yan'' 43 ''yan@gmail.com''), None)]"]
  show ?thesis
    using h1 by (simp add: ph record_events_def Let_def prepend_def send_ok_def phones_def)
qed

lemma guard_send_range:
  "guard_discipline False (fst (send_range send_res k rn) @ es) = guard_discipline False es"
proof (induction rn arbitrary: k)
  case Nil
  show ?case by simp
next
  case (Cons phone rn)
  show ?case
  proof (cases "send_res k")
    case None
    obtain evs r where sr: "send_range send_res (Suc k) rn = (evs, r)"
      by (cases "send_range send_res (Suc k) rn")
    from Cons.IH [of "Suc k"] show ?thesis by (simp add: None sr)
  next
    case (Some err)
    then show ?thesis by simp
  qed
qed

lemma RoutePhones_loop_guard:
  "guard_discipline False (rp_events (RoutePhones_loop send_res k s inbound))"
proof (induction inbound arbitrary: k s)
  case Nil
  show ?case by simp
next
  case (Cons r inbound)
  obtain person err where r: "r = (person, err)" by (cases r)
  show ?case
  proof (cases person)
    case None
    then show ?thesis by (simp add: r rp_events_prepend)
  next
    case (Some p)
    obtain evs res where sr: "send_range send_res k (Phones p) = (evs, res)"
      by (cases "send_range send_res k (Phones p)")
    have g: "\<And>es. guard_discipline False (evs @ es) = guard_discipline False es"
      using guard_send_range [of send_res k "Phones p"] sr by simp
    have g0: "guard_discipline False evs" using g [of "[]"] by simp
    show ?thesis
      using Cons.IH [of "k + length (Phones p)" "s\<lparr>mu := False\<rparr>"]
      by (cases res) (simp_all add: r Some sr Let_def rp_events_prepend g g0)
  qed
qed

lemma RoutePhones_loop_released:
  "rp_result (RoutePhones_loop send_res k s inbound) = Returned e \<Longrightarrow>
   mu (rp_server (RoutePhones_loop send_res k s inbound)) = mu s"
proof (induction inbound arbitrary: k s)
  case Nil
  then show ?case by simp
next
  case (Cons r inbound)
  obtain person err where r: "r = (person, err)" by (cases r)
  show ?case
  proof (cases "err = None \<and> \<not> mu s")
    case False
    then show ?thesis by (auto simp: r rp_server_prepend)
  next
    case True
    show ?thesis
    proof (cases person)
      case None
      with True Cons.prems show ?thesis by (simp add: r rp_result_prepend)
    next
      case (Some p)
      obtain evs res where sr: "send_range send_res k (Phones p) = (evs, res)"
        by (cases "send_range send_res k (Phones p)")
      show ?thesis
      proof (cases res)
        case None
        have "rp_result (RoutePhones_loop send_res (k + length (Phones p)) (s\<lparr>mu := False\<rparr>) inbound) = Returned e"
          using Cons.prems True by (simp add: r Some sr None Let_def rp_result_prepend)
        from Cons.IH [OF this] True show ?thesis
          by (simp add: r Some sr None Let_def rp_server_prepend)
      next
        case (Some err')
        with True show ?thesis by (simp add: r \<open>person = Some p\<close> sr Let_def rp_server_prepend)
      qed
    qed
  qed
qed

text \<open>
  Claim C8. In every run of \<open>RoutePhones\<close>, replayed from a guard that this session
  does not hold, each \<open>Recv\<close> and each \<open>Send\<close> happens while the guard is free and
  only the copy of the phone list happens while it is held; and when the handler
  returns, the mutex is as it found it.
\<close>

theorem RoutePhones_guard_only_for_copy:
  "guard_discipline False (rp_events (RoutePhones s send_res inbound)) \<and>
   (\<forall>e. rp_result (RoutePhones s send_res inbound) = Returned e \<longrightarrow>
        mu (rp_server (RoutePhones s send_res inbound)) = mu s)"
  using RoutePhones_loop_guard [of send_res 0 s inbound]
    RoutePhones_loop_released [of send_res 0 s inbound]
  by (simp add: RoutePhones_def)

theorem RoutePhones_guard_only_for_copy_witness:
  "guard_discipline False (rp_events (RoutePhones newServer send_ok
     [(Some (mkPerson ''Zoe'' 42 ''zoe@gmail.com''), None), (None, Some EOF)])) \<and>
   rp_result (RoutePhones newServer send_ok
     [(Some (mkPerson ''Zoe'' 42 ''zoe@gmail.com''), None), (None, Some EOF)]) = Returned None \<and>
   mu (rp_server (RoutePhones newServer send_ok
     [(Some (mkPerson ''Zoe'' 42 ''zoe@gmail.com''), None), (None, Some EOF)])) = False"
proof -
  have m: "mu newServer = False" by (simp add: newServer_def loadFeatures_def)
  have r: "rp_result (RoutePhones newServer send_ok
     [(Some (mkPerson ''Zoe'' 42 ''zoe@gmail.com''), None), (None, Some EOF)]) = Returned None"
    by (simp add: RoutePhones_def m Let_def prepend_def send_ok_def mkPerson_def phones_def)
  from RoutePhones_guard_only_for_copy [of newServer send_ok
      "[(Some (mkPerson ''Zoe'' 42 ''zoe@gmail.com''), None), (None, Some EOF)]"] r m
  show ?thesis by simp
qed

lemma RoutePhones_loop_registry:
  "mu s1 = mu s2 \<Longrightarrow>
   rp_events (RoutePhones_loop send_res k s1 inbound) =
     rp_events (RoutePhones_loop send_res k s2 inbound) \<and>
   rp_result (RoutePhones_loop send_res k s1 inbound) =
     rp_result (RoutePhones_loop send_res k s2 inbound)"
proof (induction inbound arbitrary: k s1 s2)
  case Nil
  show ?case by simp
next
  case (Cons r inbound)
  obtain person err where r: "r = (person, err)" by (cases r)
  show ?case
  proof (cases person)
    case None
    with Cons.prems show ?thesis by (simp add: r rp_events_prepend rp_result_prepend)
  next
    case (Some p)
    obtain evs res where sr: "send_range send_res k (Phones p) = (evs, res)"
      by (cases "send_range send_res k (Phones p)")
    have "mu (s1\<lparr>mu := False\<rparr>) = mu (s2\<lparr>mu := False\<rparr>)" by simp
    from Cons.IH [OF this, of "k + length (Phones p)"] Cons.prems
    show ?thesis
      by (cases res) (simp_all add: r Some sr Let_def rp_events_prepend rp_result_prepend)
  qed
qed

lemma sent_phones_append: "sent_phones (xs @ ys) = sent_phones xs @ sent_phones ys"
  by (induction xs rule: sent_phones.induct) simp_all

lemma sent_phones_sends: "sent_phones (map (\<lambda>phone. EvSend phone None) rn) = rn"
  by (induction rn) simp_all

lemma sent_phones_record_events: "sent_phones (record_events p) = Phones p"
  by (simp add: record_events_def sent_phones_sends)

lemma sent_phones_records:
  "sent_phones (concat (map record_events qs)) = concat (map Phones qs)"
  by (induction qs) (simp_all add: sent_phones_append sent_phones_record_events)

text \<open>
  Claim C9. Two runs of \<open>RoutePhones\<close> on the same stream, on servers that differ in
  \<open>savedPersons\<close> and in the address book, make the same calls with the same results
  and return the same value. When the guard is free and the sends succeed, the
  messages sent for the records \<open>qs\<close> followed by end of input are the phone lists of
  \<open>qs\<close>, one after the other, and the handler returns nil.
\<close>

theorem RoutePhones_independent_of_registry:
  "rp_events (RoutePhones (s\<lparr>savedPersons := regA, addressbook := bookA\<rparr>) send_res inbound) =
     rp_events (RoutePhones (s\<lparr>savedPersons := regB, addressbook := bookB\<rparr>) send_res inbound) \<and>
   rp_result (RoutePhones (s\<lparr>savedPersons := regA, addressbook := bookA\<rparr>) send_res inbound) =
     rp_result (RoutePhones (s\<lparr>savedPersons := regB, addressbook := bookB\<rparr>) send_res inbound) \<and>
   (\<not> mu s \<and> (\<forall>i < length (concat (map Phones qs)). send_res i = None) \<longrightarrow>
      sent_phones (rp_events (RoutePhones s send_res
        (map (\<lambda>q. (Some q, None)) qs @ (None, Some EOF) # rest))) = concat (map Phones qs) \<and>
      rp_result (RoutePhones s send_res
        (map (\<lambda>q. (Some q, None)) qs @ (None, Some EOF) # rest)) = Returned None)"
proof (intro conjI impI)
  have m: "mu (s\<lparr>savedPersons := regA, addressbook := bookA\<rparr>) =
           mu (s\<lparr>savedPersons := regB, addressbook := bookB\<rparr>)" by simp
  from RoutePhones_loop_registry [OF m, of send_res 0 inbound]
  show "rp_events (RoutePhones (s\<lparr>savedPersons := regA, addressbook := bookA\<rparr>) send_res inbound) =
     rp_events (RoutePhones (s\<lparr>savedPersons := regB, addressbook := bookB\<rparr>) send_res inbound)"
   and "rp_result (RoutePhones (s\<lparr>savedPersons := regA, addressbook := bookA\<rparr>) send_res inbound) =
     rp_result (RoutePhones (s\<lparr>savedPersons := regB, addressbook := bookB\<rparr>) send_res inbound)"
    by (simp_all add: RoutePhones_def)
next
  assume a: "\<not> mu s \<and> (\<forall>i < length (concat (map Phones qs)). send_res i = None)"
  then have free: "\<not> mu s"
    and sends: "\<forall>i < length (concat (map Phones qs)). send_res (0 + i) = None" by simp_all
  note run = RoutePhones_loop_records [OF free sends, of "(None, Some EOF) # rest"]
  show "sent_phones (rp_events (RoutePhones s send_res
        (map (\<lambda>q. (Some q, None)) qs @ (None, Some EOF) # rest))) = concat (map Phones qs)"
    by (simp add: RoutePhones_def run rp_events_prepend sent_phones_append sent_phones_records)
  show "rp_result (RoutePhones s send_res
        (map (\<lambda>q. (Some q, None)) qs @ (None, Some EOF) # rest)) = Returned None"
    by (simp add: RoutePhones_def run rp_result_prepend)
qed

theorem RoutePhones_independent_of_registry_witness:
  "rp_events (RoutePhones (newServer\<lparr>savedPersons := [], addressbook := Map.empty\<rparr>) send_ok
      [(Some anotherPerson, None), (None, Some EOF)]) =
   rp_events (RoutePhones (newServer\<lparr>savedPersons := exampleData, addressbook := Map.empty\<rparr>) send_ok
      [(Some anotherPerson, None), (None, Some EOF)]) \<and>
   sent_phones (rp_events (RoutePhones newServer send_ok
      [(Some anotherPerson, None), (None, Some EOF)])) = phones"
proof -
  have h: "\<not> mu newServer \<and> (\<forall>i < length (concat (map Phones [anotherPerson])). send_ok i = None)"
    by (simp add: newServer_def loadFeatures_def send_ok_def)
  from RoutePhones_independent_of_registry [where s = newServer and regA = "[]"
      and bookA = Map.empty and send_res = send_ok
      and inbound = "[(Some anotherPerson, None), (None, Some EOF)]"
      and regB = exampleData and bookB = Map.empty and qs = "[anotherPerson]" and rest = "[]"] h
  show ?thesis by (simp add: anotherPerson_def)
qed

end
